theory Spec2Isabelle
  imports Complex_Main "HOL-Library.Word"
begin

section \<open>The dumpwave audio filter (libavfilter/af\_dumpwave.c)\<close>

text \<open>
  The filter reads the first channel of every 16-bit PCM frame, accumulates squared
  levels over a window, stores one RMS value per window in \<open>values\<close>, and at
  end of stream prints one integer per column into \<open>str\<close>.

  Numbers. The integer fields (\<open>w\<close>, \<open>h\<close>, \<open>c\<close>, \<open>col\<close>, \<open>n\<close>) are modelled as
  \<open>int\<close>: \<open>n\<close> never passes \<open>c + 1\<close> and \<open>col\<close> never passes \<open>w\<close>, so no wrap-around
  is reachable from the zeroed context. The only narrowing conversion of the source,
  \<open>const int16_t nb_samples = frame->nb_samples\<close>, is modelled on a 16-bit word.

  Floating point. A C \<open>double\<close> is modelled as a real number or one of the IEEE special
  values; finite arithmetic is exact (no rounding, no overflow to infinity, one zero),
  the special values follow IEEE 754. The \<open>float\<close> computation of one sample's level
  only meets finite values and is modelled on the reals.
\<close>

subsection \<open>Doubles\<close>

datatype double = Finite real | PlusInf | MinusInf | NaN

text \<open>\<open>a > b\<close> on doubles: false whenever an operand is NaN.\<close>

fun dgt :: "double \<Rightarrow> double \<Rightarrow> bool" where
  "dgt (Finite a) (Finite b) = (a > b)"
| "dgt PlusInf (Finite b) = True"
| "dgt PlusInf MinusInf = True"
| "dgt (Finite a) MinusInf = True"
| "dgt _ _ = False"

text \<open>\<open>a / b\<close>. A finite value divided by zero is an infinity of its sign, \<open>0 / 0\<close> is NaN.\<close>

fun ddiv :: "double \<Rightarrow> double \<Rightarrow> double" where
  "ddiv NaN _ = NaN"
| "ddiv _ NaN = NaN"
| "ddiv (Finite a) (Finite b) =
     (if b \<noteq> 0 then Finite (a / b)
      else if a = 0 then NaN
      else if a > 0 then PlusInf else MinusInf)"
| "ddiv (Finite a) PlusInf = Finite 0"
| "ddiv (Finite a) MinusInf = Finite 0"
| "ddiv PlusInf (Finite b) = (if b \<ge> 0 then PlusInf else MinusInf)"
| "ddiv MinusInf (Finite b) = (if b \<ge> 0 then MinusInf else PlusInf)"
| "ddiv _ _ = NaN"

fun dmul :: "double \<Rightarrow> double \<Rightarrow> double" where
  "dmul NaN _ = NaN"
| "dmul _ NaN = NaN"
| "dmul (Finite a) (Finite b) = Finite (a * b)"
| "dmul (Finite a) PlusInf = (if a = 0 then NaN else if a > 0 then PlusInf else MinusInf)"
| "dmul (Finite a) MinusInf = (if a = 0 then NaN else if a > 0 then MinusInf else PlusInf)"
| "dmul PlusInf (Finite b) = (if b = 0 then NaN else if b > 0 then PlusInf else MinusInf)"
| "dmul MinusInf (Finite b) = (if b = 0 then NaN else if b > 0 then MinusInf else PlusInf)"
| "dmul PlusInf PlusInf = PlusInf"
| "dmul PlusInf MinusInf = MinusInf"
| "dmul MinusInf PlusInf = MinusInf"
| "dmul MinusInf MinusInf = PlusInf"

fun dsub :: "double \<Rightarrow> double \<Rightarrow> double" where
  "dsub NaN _ = NaN"
| "dsub _ NaN = NaN"
| "dsub (Finite a) (Finite b) = Finite (a - b)"
| "dsub (Finite a) PlusInf = MinusInf"
| "dsub (Finite a) MinusInf = PlusInf"
| "dsub PlusInf (Finite b) = PlusInf"
| "dsub MinusInf (Finite b) = MinusInf"
| "dsub PlusInf MinusInf = PlusInf"
| "dsub MinusInf PlusInf = MinusInf"
| "dsub PlusInf PlusInf = NaN"
| "dsub MinusInf MinusInf = NaN"

fun dsqrt :: "double \<Rightarrow> double" where
  "dsqrt (Finite a) = (if a < 0 then NaN else Finite (sqrt a))"
| "dsqrt PlusInf = PlusInf"
| "dsqrt MinusInf = NaN"
| "dsqrt NaN = NaN"

fun dexp :: "double \<Rightarrow> double" where
  "dexp (Finite a) = Finite (exp a)"
| "dexp PlusInf = PlusInf"
| "dexp MinusInf = Finite 0"
| "dexp NaN = NaN"

definition double_of_int :: "int \<Rightarrow> double" where
  "double_of_int i = Finite (real_of_int i)"

text \<open>The constant \<open>M_E\<close> of math.h.\<close>

definition M_E :: real where
  "M_E = exp 1"

subsection \<open>Ways a call does not return\<close>

text \<open>
  \<open>AssertFailed\<close>: \<open>av_assert0\<close> found its condition false and called \<open>abort()\<close>.
  \<open>UndefinedBehaviour\<close>: the C program left defined behaviour (a double that does not
  fit an \<open>int\<close> was converted to one, or memory outside a block was accessed).
\<close>

datatype stop = AssertFailed | UndefinedBehaviour

text \<open>
  Conversion of a double to \<open>int\<close> (the assignment \<open>res = ch_height * rmsSize\<close>): the
  fraction is discarded; the behaviour is undefined when the integral part is not an
  \<open>int\<close>, and for NaN and the infinities.
\<close>

definition trunc0 :: "real \<Rightarrow> int" where
  "trunc0 x = (if 0 \<le> x then \<lfloor>x\<rfloor> else \<lceil>x\<rceil>)"

fun int_of_double :: "double \<Rightarrow> stop + int" where
  "int_of_double (Finite x) =
     (if - 2147483648 \<le> trunc0 x \<and> trunc0 x \<le> 2147483647 then Inr (trunc0 x)
      else Inl UndefinedBehaviour)"
| "int_of_double _ = Inl UndefinedBehaviour"

subsection \<open>The private context\<close>

text \<open>
  \<open>struct DumpWaveContext\<close>, field by field (prefixed \<open>dw_\<close>; \<open>class\<close>, \<open>rate\<close>,
  \<open>scale\<close> and \<open>json\<close> play no part in the computation). \<open>dw_values\<close> is the block
  \<open>values\<close> points to, \<open>[]\<close> for no block; \<open>dw_str\<close> is the C string in the block
  \<open>str\<close> points to. \<open>dw_sum\<close> is only ever set to 0 or increased by a finite
  square, so it is kept as a real.
\<close>

record DumpWaveContext =
  dw_w :: int
  dw_h :: int
  dw_c :: int
  dw_col :: int
  dw_str :: string
  dw_values :: "double list"
  dw_n :: int
  dw_max :: double
  dw_sum :: real

text \<open>
  Modelled from the spec: the allocation of the private context belongs to libavfilter
  and is not under src/. The spec's state \<open>Configured\<close> has the accumulator state
  zeroed; the framework hands \<open>init\<close> a zero-filled context in which the option parser
  has stored the size \<open>s\<close> (\<open>w\<close> and \<open>h\<close>) and \<open>c\<close>.
\<close>

definition priv_alloc :: "int \<Rightarrow> int \<Rightarrow> int \<Rightarrow> DumpWaveContext" where
  "priv_alloc W H C =
     \<lparr>dw_w = W, dw_h = H, dw_c = C, dw_col = 0, dw_str = [], dw_values = [],
      dw_n = 0, dw_max = Finite 0, dw_sum = 0\<rparr>"

text \<open>
  \<open>init\<close> (lines 74-82). \<open>av_malloc\<close> (libavutil, not under src/) is \<open>malloc\<close> with an
  alignment: it does not clear the block it returns. The cells hold whatever the heap
  held, given here as \<open>heap\<close>, cell by cell, and as \<open>heap_str\<close> for the string block. A
  failed allocation, which \<open>init\<close> does not check, is not modelled. The function
  returns 0.
\<close>

definition init :: "DumpWaveContext \<Rightarrow> (nat \<Rightarrow> double) \<Rightarrow> string \<Rightarrow> int \<times> DumpWaveContext" where
  "init dumpwave heap heap_str =
     (let ch_width = dw_w dumpwave
      in (0, dumpwave\<lparr>dw_values := map heap [0..<nat ch_width], dw_str := heap_str\<rparr>))"

subsection \<open>One sample\<close>

text \<open>
  Modelled from the spec: the macro \<open>FFMAX\<close> of libavutil/common.h is not under src/; the
  spec reads the line as \<open>peak = max(peak, rms)\<close>. The macro is the C expression
  \<open>((a) > (b) ? (a) : (b))\<close>.
\<close>

definition FFMAX :: "double \<Rightarrow> double \<Rightarrow> double" where
  "FFMAX a b = (if dgt a b then a else b)"

text \<open>Lines 199-208: the level of one sample \<open>s16\<close>.\<close>

definition sample_level :: "int \<Rightarrow> real" where
  "sample_level s16 =
     (let smpl = real_of_int s16 / 32767
      in if smpl \<noteq> 0 then
           (let db = 20 * log 10 \<bar>smpl\<bar>;
                smpl = (db + 60) / 60
            in if smpl < 0 then 0 else smpl)
         else smpl)"

text \<open>Lines 198-209: read the sample, add the square of its level to \<open>sum\<close>.\<close>

definition accumulate :: "16 word \<Rightarrow> DumpWaveContext \<Rightarrow> DumpWaveContext" where
  "accumulate s16 d =
     (let smpl = sample_level (sint s16)
      in d\<lparr>dw_sum := dw_sum d + smpl * smpl\<rparr>)"

text \<open>
  Lines 211-221: \<open>if ((*n)++ == max_samples)\<close> compares the old counter and increments
  it; inside, the assertion comes before the store to \<open>values[*col]\<close>. \<open>av_assert0\<close>
  (libavutil/avassert.h, not under src/) is checked at every assert level and calls
  \<open>abort()\<close> when its condition is false. A store outside the block is undefined
  behaviour.
\<close>

definition window_commit :: "DumpWaveContext \<Rightarrow> stop + DumpWaveContext" where
  "window_commit d0 =
     (let n0 = dw_n d0;
          d = d0\<lparr>dw_n := n0 + 1\<rparr>
      in if n0 = dw_c d then
           (let sample = dsqrt (ddiv (Finite (dw_sum d)) (double_of_int (dw_c d)))
            in if dw_col d < dw_w d then
                 (if 0 \<le> dw_col d \<and> nat (dw_col d) < length (dw_values d) then
                    Inr (d\<lparr>dw_values := (dw_values d)[nat (dw_col d) := sample],
                           dw_sum := 0,
                           dw_max := FFMAX (dw_max d) sample,
                           dw_col := dw_col d + 1,
                           dw_n := 0\<rparr>)
                  else Inl UndefinedBehaviour)
               else Inl AssertFailed)
         else Inr d)"

definition ingest_sample :: "16 word \<Rightarrow> DumpWaveContext \<Rightarrow> stop + DumpWaveContext" where
  "ingest_sample s16 d = window_commit (accumulate s16 d)"

text \<open>A stream of first-channel samples, ingested in order.\<close>

fun ingest_samples :: "DumpWaveContext \<Rightarrow> 16 word list \<Rightarrow> stop + DumpWaveContext" where
  "ingest_samples d [] = Inr d"
| "ingest_samples d (s # ss) =
     (case ingest_sample s d of Inl e \<Rightarrow> Inl e | Inr d' \<Rightarrow> ingest_samples d' ss)"

subsection \<open>One frame\<close>

text \<open>
  A frame: its sample count and \<open>data[0]\<close> read as an array of \<open>int16_t\<close> (the samples
  of all channels, interleaved).
\<close>

record AVFrame =
  nb_samples :: int
  data0 :: "16 word list"

text \<open>
  What \<open>dumpwave_filter_frame\<close> reaches through its arguments: the private context,
  \<open>inlink->channels\<close>, and the frames handed so far to \<open>ctx->outputs[0]\<close>, oldest first.
\<close>

record AVFilterContext =
  priv :: DumpWaveContext
  channels :: int
  outputs0 :: "AVFrame list"

text \<open>
  Modelled from the spec: \<open>ff_filter_frame\<close> belongs to libavfilter and is not under
  src/. The spec has every input frame forwarded downstream: the call passes the frame
  to the next filter and returns that filter's status, which the caller cannot predict.
\<close>

definition ff_filter_frame :: "AVFrame list \<Rightarrow> AVFrame \<Rightarrow> int \<Rightarrow> int \<times> AVFrame list" where
  "ff_filter_frame link frame status = (status, link @ [frame])"

text \<open>
  The loop of lines 197-222, from \<open>i\<close> on: \<open>p[i*nb_channels]\<close> is read and ingested.
  A read outside the frame's data is undefined behaviour.
\<close>

function sample_loop ::
  "int \<Rightarrow> int \<Rightarrow> int \<Rightarrow> 16 word list \<Rightarrow> DumpWaveContext \<Rightarrow> stop + DumpWaveContext" where
  "sample_loop i nb_samples16 nb_channels p d =
     (if i < nb_samples16 then
        (if 0 \<le> i * nb_channels \<and> nat (i * nb_channels) < length p then
           (case ingest_sample (p ! nat (i * nb_channels)) d of
              Inl e \<Rightarrow> Inl e
            | Inr d' \<Rightarrow> sample_loop (i + 1) nb_samples16 nb_channels p d')
         else Inl UndefinedBehaviour)
      else Inr d)"
  by pat_completeness auto
termination
  by (relation "measure (\<lambda>(i, nb, ch, p, d). nat (nb - i))") auto

declare sample_loop.simps [simp del]

text \<open>
  \<open>dumpwave_filter_frame\<close> (lines 175-230). The sample count is narrowed to \<open>int16_t\<close>
  (line 182). After the loop the frame is passed on; the status of that call is stored
  in \<open>ret\<close> and the function returns the constant 0. \<open>status\<close> is what
  \<open>ff_filter_frame\<close> will answer.
\<close>

definition dumpwave_filter_frame ::
  "AVFilterContext \<Rightarrow> AVFrame \<Rightarrow> int \<Rightarrow> stop + (int \<times> AVFilterContext)" where
  "dumpwave_filter_frame ctx frame status =
     (let nb_samples16 = sint (word_of_int (nb_samples frame) :: 16 word)
      in case sample_loop 0 nb_samples16 (channels ctx) (data0 frame) (priv ctx) of
           Inl e \<Rightarrow> Inl e
         | Inr d \<Rightarrow>
             (let (ret, link) = ff_filter_frame (outputs0 ctx) frame status
              in Inr (0, ctx\<lparr>priv := d, outputs0 := link\<rparr>)))"

text \<open>The frames of a stream, filtered in order; \<open>statuses\<close> are the downstream answers.\<close>

fun filter_frames ::
  "AVFilterContext \<Rightarrow> AVFrame list \<Rightarrow> int list \<Rightarrow> stop + AVFilterContext" where
  "filter_frames ctx [] statuses = Inr ctx"
| "filter_frames ctx (f # fs) statuses =
     (case dumpwave_filter_frame ctx f (case statuses of [] \<Rightarrow> 0 | s # _ \<Rightarrow> s) of
        Inl e \<Rightarrow> Inl e
      | Inr (r, ctx') \<Rightarrow> filter_frames ctx' fs (tl statuses))"

subsection \<open>End of stream\<close>

text \<open>What \<open>sprintf(pos, "%d,", res)\<close> writes before the terminating NUL.\<close>

definition digit_char :: "nat \<Rightarrow> char" where
  "digit_char k = ''0123456789'' ! k"

function dec_nat :: "nat \<Rightarrow> string" where
  "dec_nat k = (if k < 10 then [digit_char k] else dec_nat (k div 10) @ [digit_char (k mod 10)])"
  by pat_completeness auto
termination
  by (relation "measure (\<lambda>k. k)") auto

declare dec_nat.simps [simp del]

definition sprintf_d_comma :: "int \<Rightarrow> string" where
  "sprintf_d_comma res =
     (if res < 0 then CHR ''-'' # dec_nat (nat (- res)) else dec_nat (nat res)) @ '',''"

text \<open>Lines 165-166 for column \<open>i\<close>.\<close>

definition render_column :: "DumpWaveContext \<Rightarrow> nat \<Rightarrow> stop + int" where
  "render_column d i =
     (if i < length (dw_values d) then
        (let rmsSize = dexp (dsub (dmul (ddiv (dw_values d ! i) (dw_max d)) (Finite M_E))
                                  (Finite M_E))
         in int_of_double (dmul (double_of_int (dw_h d)) rmsSize))
      else Inl UndefinedBehaviour)"

text \<open>
  The loop of lines 164-168, from column \<open>i\<close> on, with \<open>out\<close> the characters between
  \<open>result\<close> and \<open>pos\<close>. The block of \<open>str\<close> has \<open>ch_width*4\<close> bytes (line 79); each
  \<open>sprintf\<close> also writes a NUL after its characters, and a write past the block is
  undefined behaviour.
\<close>

function render_loop :: "int \<Rightarrow> DumpWaveContext \<Rightarrow> string \<Rightarrow> stop + string" where
  "render_loop i d out =
     (if i < dw_w d then
        (if 0 \<le> i then
           (case render_column d (nat i) of
              Inl e \<Rightarrow> Inl e
            | Inr res \<Rightarrow>
                (let out' = out @ sprintf_d_comma res
                 in if int (length out') + 1 \<le> dw_w d * 4
                    then render_loop (i + 1) d out'
                    else Inl UndefinedBehaviour))
         else Inl UndefinedBehaviour)
      else Inr out)"
  by pat_completeness auto
termination
  by (relation "measure (\<lambda>(i, d, out). nat (dw_w d - i))") auto

declare render_loop.simps [simp del]

text \<open>
  Modelled from the spec: the constant \<open>AVERROR_EOF\<close> of libavutil/error.h is not under
  src/; it is the spec's signal that the source is exhausted, \<open>-MKTAG('E','O','F',' ')\<close>.
\<close>

definition AVERROR_EOF :: int where
  "AVERROR_EOF = - 541478725"

text \<open>
  \<open>dumpwave_request_frame\<close> (lines 143-173); \<open>ret\<close> is what \<open>ff_request_frame\<close> answered.
  \<open>pos[-1] = '\\0'\<close> removes the last comma; with nothing written it is a store before
  the block.
\<close>

definition dumpwave_request_frame :: "DumpWaveContext \<Rightarrow> int \<Rightarrow> stop + (int \<times> DumpWaveContext)" where
  "dumpwave_request_frame d ret =
     (if ret = AVERROR_EOF then
        (case render_loop 0 d [] of
           Inl e \<Rightarrow> Inl e
         | Inr out \<Rightarrow>
             (if out = [] then Inl UndefinedBehaviour
              else Inr (ret, d\<lparr>dw_str := butlast out\<rparr>)))
      else Inr (ret, d))"

subsection \<open>Notions used to state the properties\<close>

text \<open>
  Modelled from the spec: the life cycle \<open>Configured \<rightarrow> Accumulating \<rightarrow> Finalized\<close> is
  driven by libavfilter, which is not under src/. \<open>configured\<close> is the context after
  the framework's allocation and \<open>init\<close>, before any sample.
\<close>

definition configured :: "int \<Rightarrow> int \<Rightarrow> int \<Rightarrow> (nat \<Rightarrow> double) \<Rightarrow> string \<Rightarrow> DumpWaveContext" where
  "configured W H C heap heap_str = snd (init (priv_alloc W H C) heap heap_str)"

text \<open>The whole life cycle on a stream of samples: the string left in \<open>str\<close>.\<close>

definition run_stream ::
  "int \<Rightarrow> int \<Rightarrow> int \<Rightarrow> (nat \<Rightarrow> double) \<Rightarrow> string \<Rightarrow> 16 word list \<Rightarrow> stop + string" where
  "run_stream W H C heap heap_str ss =
     (case ingest_samples (configured W H C heap heap_str) ss of
        Inl e \<Rightarrow> Inl e
      | Inr d \<Rightarrow>
          (case dumpwave_request_frame d AVERROR_EOF of
             Inl e \<Rightarrow> Inl e
           | Inr (ret, d') \<Rightarrow> Inr (dw_str d')))"

text \<open>The columns written so far: the cells of \<open>values\<close> below the cursor.\<close>

definition committed :: "DumpWaveContext \<Rightarrow> double list" where
  "committed d = take (nat (dw_col d)) (dw_values d)"

text \<open>\<open>a \<le> b\<close> on doubles, false whenever an operand is NaN.\<close>

fun dle :: "double \<Rightarrow> double \<Rightarrow> bool" where
  "dle (Finite a) (Finite b) = (a \<le> b)"
| "dle MinusInf (Finite b) = True"
| "dle (Finite a) PlusInf = True"
| "dle MinusInf PlusInf = True"
| "dle MinusInf MinusInf = True"
| "dle PlusInf PlusInf = True"
| "dle _ _ = False"

text \<open>
  The states the loop body keeps to when started from a configured context with
  \<open>0 \<le> w\<close> and \<open>0 \<le> c\<close>: the counter is within the window, the cursor within the
  block, the sum not negative.
\<close>

definition wf_state :: "DumpWaveContext \<Rightarrow> bool" where
  "wf_state d \<longleftrightarrow>
     0 \<le> dw_n d \<and> dw_n d \<le> dw_c d \<and> 0 \<le> dw_col d \<and> dw_col d \<le> dw_w d \<and>
     length (dw_values d) = nat (dw_w d) \<and> 0 \<le> dw_sum d"

text \<open>The peak is the largest committed value (0 when nothing is committed).\<close>

definition peak_inv :: "DumpWaveContext \<Rightarrow> bool" where
  "peak_inv d \<longleftrightarrow>
     (\<exists>rs. committed d = map Finite rs \<and> (\<forall>r \<in> set rs. 0 \<le> r) \<and>
           dw_max d = Finite (Max (insert 0 (set rs))))"

text \<open>
  A frame as the framework delivers it: \<open>nb_samples\<close> samples for each of the link's
  channels, interleaved.
\<close>

definition wf_frame :: "int \<Rightarrow> AVFrame \<Rightarrow> bool" where
  "wf_frame nb_channels frame \<longleftrightarrow>
     0 \<le> nb_samples frame \<and> 1 \<le> nb_channels \<and>
     length (data0 frame) = nat (nb_samples frame * nb_channels)"

text \<open>The first \<open>k\<close> samples of a frame's first channel.\<close>

definition first_channel :: "int \<Rightarrow> AVFrame \<Rightarrow> nat \<Rightarrow> 16 word list" where
  "first_channel nb_channels frame k =
     map (\<lambda>j. data0 frame ! (j * nat nb_channels)) [0..<k]"

text \<open>The sample count after the narrowing of line 182, as a number of loop rounds.\<close>

definition rounds16 :: "AVFrame \<Rightarrow> nat" where
  "rounds16 frame = nat (sint (word_of_int (nb_samples frame) :: 16 word))"

text \<open>
  The level of a sample in the spec's words: \<open>smpl = sample / 32767.0\<close>; zero stays
  zero; otherwise \<open>(20*log10(|smpl|) + 60) / 60\<close>, clamped below at 0.
\<close>

definition spec_level :: "int \<Rightarrow> real" where
  "spec_level s =
     (if real_of_int s / 32767 = 0 then 0
      else max 0 ((20 * log 10 \<bar>real_of_int s / 32767\<bar> + 60) / 60))"

text \<open>
  The rendered integer in the spec's words: \<open>ratio = v / peak\<close>,
  \<open>scaled = exp(ratio * e - e)\<close>, output \<open>floor(H * scaled)\<close>.
\<close>

definition spec_height :: "int \<Rightarrow> real \<Rightarrow> real \<Rightarrow> int" where
  "spec_height H peak v = \<lfloor>real_of_int H * exp (v / peak * exp 1 - exp 1)\<rfloor>"

text \<open>The text of a sequence of integers, each followed by a comma.\<close>

definition serialise :: "int list \<Rightarrow> string" where
  "serialise rs = concat (map sprintf_d_comma rs)"

section \<open>Properties\<close>

subsection \<open>The loop body and its invariants\<close>

lemma accumulate_fields [simp]:
  "dw_w (accumulate s d) = dw_w d" "dw_h (accumulate s d) = dw_h d"
  "dw_c (accumulate s d) = dw_c d" "dw_col (accumulate s d) = dw_col d"
  "dw_n (accumulate s d) = dw_n d" "dw_max (accumulate s d) = dw_max d"
  "dw_values (accumulate s d) = dw_values d" "dw_str (accumulate s d) = dw_str d"
  by (simp_all add: accumulate_def Let_def)

lemma ingest_sample_step:
  assumes "wf_state d"
  shows "ingest_sample s d =
     (if dw_n d = dw_c d then
        (if dw_col d < dw_w d then
           Inr (d\<lparr>dw_n := 0, dw_col := dw_col d + 1, dw_sum := 0,
                  dw_values := (dw_values d)[nat (dw_col d) :=
                      dsqrt (ddiv (Finite (dw_sum d + (sample_level (sint s))\<^sup>2)) (double_of_int (dw_c d)))],
                  dw_max := FFMAX (dw_max d)
                      (dsqrt (ddiv (Finite (dw_sum d + (sample_level (sint s))\<^sup>2)) (double_of_int (dw_c d))))\<rparr>)
         else Inl AssertFailed)
      else Inr (d\<lparr>dw_n := dw_n d + 1, dw_sum := dw_sum d + (sample_level (sint s))\<^sup>2\<rparr>))"
  using assms
  by (auto simp: ingest_sample_def window_commit_def Let_def wf_state_def accumulate_def power2_eq_square)

lemma ingest_sample_wf:
  "wf_state d \<Longrightarrow> ingest_sample s d = Inr d' \<Longrightarrow> wf_state d'"
  by (auto simp: ingest_sample_step wf_state_def split: if_splits)

lemma configured_fields [simp]:
  "dw_w (configured W H C heap hs) = W" "dw_h (configured W H C heap hs) = H"
  "dw_c (configured W H C heap hs) = C" "dw_col (configured W H C heap hs) = 0"
  "dw_n (configured W H C heap hs) = 0" "dw_max (configured W H C heap hs) = Finite 0"
  "dw_sum (configured W H C heap hs) = 0"
  "dw_values (configured W H C heap hs) = map heap [0..<nat W]"
  "dw_str (configured W H C heap hs) = hs"
  by (simp_all add: configured_def init_def priv_alloc_def Let_def)

lemma configured_wf: "0 \<le> W \<Longrightarrow> 0 \<le> C \<Longrightarrow> wf_state (configured W H C heap hs)"
  by (simp add: wf_state_def)

lemma configured_peak_inv: "peak_inv (configured W H C heap hs)"
  by (simp add: peak_inv_def committed_def)

lemma rms_finite:
  "0 < c \<Longrightarrow> 0 \<le> x \<Longrightarrow> dsqrt (ddiv (Finite x) (double_of_int c)) = Finite (sqrt (x / real_of_int c))"
  by (simp add: double_of_int_def not_less)

lemma FFMAX_Finite: "FFMAX (Finite a) (Finite b) = Finite (max a b)"
  by (simp add: FFMAX_def max_def)

lemma Max_insert0_snoc:
  "Max (insert 0 (set (rs @ [r::real]))) = max (Max (insert 0 (set rs))) r"
proof -
  have "insert 0 (set (rs @ [r])) = insert r (insert 0 (set rs))" by auto
  then show ?thesis by (simp add: max.commute)
qed

lemma ingest_sample_peak:
  assumes wf: "wf_state d" and c: "0 < dw_c d" and p: "peak_inv d"
    and st: "ingest_sample s d = Inr d'"
  shows "peak_inv d'"
proof (cases "dw_n d = dw_c d")
  case False
  then have "d' = d\<lparr>dw_n := dw_n d + 1, dw_sum := dw_sum d + (sample_level (sint s))\<^sup>2\<rparr>"
    using st by (simp add: ingest_sample_step [OF wf])
  then show ?thesis using p by (simp add: peak_inv_def committed_def)
next
  case True
  let ?x = "dw_sum d + (sample_level (sint s))\<^sup>2"
  let ?r = "sqrt (?x / real_of_int (dw_c d))"
  have x0: "0 \<le> ?x" using wf by (simp add: wf_state_def)
  have lt: "dw_col d < dw_w d" and
    d': "d' = d\<lparr>dw_n := 0, dw_col := dw_col d + 1, dw_sum := 0,
                  dw_values := (dw_values d)[nat (dw_col d) := Finite ?r],
                  dw_max := FFMAX (dw_max d) (Finite ?r)\<rparr>"
    using st True by (auto simp: ingest_sample_step [OF wf] rms_finite [OF c x0] split: if_splits)
  obtain rs where rs: "committed d = map Finite rs" "\<forall>r \<in> set rs. 0 \<le> r"
      "dw_max d = Finite (Max (insert 0 (set rs)))"
    using p by (auto simp: peak_inv_def)
  have len: "nat (dw_col d) < length (dw_values d)" and col0: "0 \<le> dw_col d"
    using wf lt by (auto simp: wf_state_def)
  have nat1: "nat (dw_col d + 1) = Suc (nat (dw_col d))" using col0 by simp
  have "committed d' = committed d @ [Finite ?r]"
    unfolding committed_def d' using len
    by (simp add: nat1 take_Suc_conv_app_nth)
  then have 1: "committed d' = map Finite (rs @ [?r])" using rs(1) by simp
  have r0: "0 \<le> ?r" using x0 c by simp
  have 2: "\<forall>r \<in> set (rs @ [?r]). 0 \<le> r" using rs(2) r0 by auto
  have 3: "dw_max d' = Finite (Max (insert 0 (set (rs @ [?r]))))"
    unfolding d' using rs(3) by (simp add: FFMAX_Finite Max_insert0_snoc del: set_append)
  show ?thesis unfolding peak_inv_def using 1 2 3 by blast
qed

lemma ingest_sample_config:
  "ingest_sample s d = Inr d' \<Longrightarrow> dw_w d' = dw_w d \<and> dw_h d' = dw_h d \<and> dw_c d' = dw_c d"
  by (auto simp: ingest_sample_def window_commit_def Let_def split: if_splits)

lemma ingest_samples_inv:
  "wf_state d \<Longrightarrow> 0 < dw_c d \<Longrightarrow> peak_inv d \<Longrightarrow> ingest_samples d ss = Inr d' \<Longrightarrow>
     wf_state d' \<and> peak_inv d' \<and> dw_w d' = dw_w d \<and> dw_h d' = dw_h d \<and> dw_c d' = dw_c d"
proof (induction ss arbitrary: d)
  case Nil
  then show ?case by simp
next
  case (Cons s ss)
  from Cons.prems(4) obtain d1 where d1: "ingest_sample s d = Inr d1" "ingest_samples d1 ss = Inr d'"
    by (auto split: sum.splits)
  have cfg: "dw_w d1 = dw_w d" "dw_h d1 = dw_h d" "dw_c d1 = dw_c d"
    using ingest_sample_config [OF d1(1)] by auto
  have "wf_state d1" using ingest_sample_wf [OF Cons.prems(1) d1(1)] .
  moreover have "peak_inv d1" using ingest_sample_peak [OF Cons.prems(1,2,3) d1(1)] .
  ultimately show ?case using Cons.IH [of d1] d1(2) cfg Cons.prems(2) by simp
qed

lemma div_window_full: "0 \<le> (c::int) \<Longrightarrow> (c + (1 + l)) div (c + 1) = 1 + l div (c + 1)"
  "0 \<le> (c::int) \<Longrightarrow> (c + (1 + l)) mod (c + 1) = l mod (c + 1)"
proof -
  assume c: "0 \<le> c"
  have e: "c + (1 + l) = 1 * (c + 1) + l" by simp
  show "(c + (1 + l)) div (c + 1) = 1 + l div (c + 1)"
    unfolding e using c by (subst div_mult_self3) auto
  show "(c + (1 + l)) mod (c + 1) = l mod (c + 1)"
    unfolding e by (subst mod_mult_self3) auto
qed

lemma ingest_samples_count:
  "wf_state d \<Longrightarrow>
     (if dw_col d + (dw_n d + int (length ss)) div (dw_c d + 1) \<le> dw_w d then
        (\<exists>d'. ingest_samples d ss = Inr d' \<and> wf_state d' \<and>
              dw_col d' = dw_col d + (dw_n d + int (length ss)) div (dw_c d + 1) \<and>
              dw_n d' = (dw_n d + int (length ss)) mod (dw_c d + 1) \<and>
              dw_w d' = dw_w d \<and> dw_h d' = dw_h d \<and> dw_c d' = dw_c d)
      else ingest_samples d ss = Inl AssertFailed)"
proof (induction ss arbitrary: d)
  case Nil
  then show ?case by (auto simp: wf_state_def)
next
  case (Cons s ss)
  let ?l = "int (length ss)"
  have c0: "0 \<le> dw_c d" and n0: "0 \<le> dw_n d" "dw_n d \<le> dw_c d" and colw: "dw_col d \<le> dw_w d"
    using Cons.prems by (auto simp: wf_state_def)
  have nonneg: "0 \<le> ?l div (dw_c d + 1)"
    using c0 by (simp add: pos_imp_zdiv_nonneg_iff)
  show ?case
  proof (cases "dw_n d = dw_c d")
    case full: True
    show ?thesis
    proof (cases "dw_col d < dw_w d")
      case True
      obtain d1 where d1: "ingest_sample s d = Inr d1" "dw_n d1 = 0" "dw_col d1 = dw_col d + 1"
         "dw_w d1 = dw_w d" "dw_h d1 = dw_h d" "dw_c d1 = dw_c d"
        using full True by (simp add: ingest_sample_step [OF Cons.prems])
      have wf1: "wf_state d1" using ingest_sample_wf [OF Cons.prems d1(1)] .
      show ?thesis
        using Cons.IH [OF wf1] d1 full c0
        by (simp add: div_window_full add.assoc split: if_splits)
    next
      case False
      then have "ingest_sample s d = Inl AssertFailed"
        using full by (simp add: ingest_sample_step [OF Cons.prems])
      then show ?thesis using False full c0 nonneg colw
        by (simp add: div_window_full)
    qed
  next
    case False
    obtain d1 where d1: "ingest_sample s d = Inr d1" "dw_n d1 = dw_n d + 1" "dw_col d1 = dw_col d"
         "dw_w d1 = dw_w d" "dw_h d1 = dw_h d" "dw_c d1 = dw_c d"
      using False by (simp add: ingest_sample_step [OF Cons.prems])
    have wf1: "wf_state d1" using ingest_sample_wf [OF Cons.prems d1(1)] .
    show ?thesis
      using Cons.IH [OF wf1] d1
      by (simp add: add.assoc add.commute add.left_commute split: if_splits)
  qed
qed

subsection \<open>Evaluation on concrete inputs\<close>

lemmas eval_defs = ingest_sample_def window_commit_def accumulate_def sample_level_def
  configured_def init_def priv_alloc_def Let_def double_of_int_def FFMAX_def

lemma example_run:
  "ingest_samples (configured 1 240 1 (\<lambda>_. NaN) []) [32767, 0] =
     Inr \<lparr>dw_w = 1, dw_h = 240, dw_c = 1, dw_col = 1, dw_str = [], dw_values = [Finite 1],
            dw_n = 0, dw_max = Finite 1, dw_sum = 0\<rparr>"
  by (simp add: eval_defs)

subsection \<open>The level of a sample\<close>

lemma sample_level_spec: "sample_level s = spec_level s"
  by (simp add: sample_level_def spec_level_def Let_def max_def)

text \<open>
  Claim C2. For every 16-bit sample \<open>s\<close> the loop body adds the square of the spec's
  level to \<open>sum\<close>: the level is \<open>s / 32767\<close>, stays 0 when that is 0, and is otherwise
  \<open>(20 * log10 |smpl| + 60) / 60\<close> clamped below at 0. The window check of the same
  round then works on the increased sum.
\<close>

theorem C2_sum_of_squares:
  "dw_sum (accumulate s d) = dw_sum d + (spec_level (sint s))\<^sup>2 \<and>
   ingest_sample s d = window_commit (d\<lparr>dw_sum := dw_sum d + (spec_level (sint s))\<^sup>2\<rparr>)"
  by (simp add: ingest_sample_def accumulate_def Let_def sample_level_spec power2_eq_square)

subsection \<open>The column cursor\<close>

lemma ingest_samples_column:
  assumes "0 \<le> W" "0 \<le> C" "ingest_samples (configured W H C heap hs) ss = Inr d"
  shows "dw_col d = int (length ss) div (C + 1)"
  using ingest_samples_count [OF configured_wf [OF assms(1,2)], of H heap hs ss] assms(3)
  by (auto split: if_splits)

text \<open>
  Claim C1 says the cursor is \<open>floor(L / C)\<close> after \<open>L\<close> samples. The code compares the
  counter before incrementing it, so a window takes \<open>C + 1\<close> samples
  (\<open>ingest_samples_column\<close>). On the spec's own example (\<open>W = 4\<close>, \<open>H = 100\<close>, \<open>C = 2\<close>,
  eight samples of any value) the cursor ends at 2, not at \<open>floor(8 / 2) = 4\<close>.
\<close>

theorem C1_column_at_failing_input:
  "map_sum id dw_col (ingest_samples (configured 4 100 2 heap hs) [s1, s2, s3, s4, s5, s6, s7, s8])
     = Inr 2"
  using ingest_samples_count [OF configured_wf [of 4 2 100 heap hs], of "[s1, s2, s3, s4, s5, s6, s7, s8]"]
  by auto

subsection \<open>The peak\<close>

lemma dle_FFMAX: "a \<noteq> NaN \<Longrightarrow> dle a (FFMAX a (Finite r))"
  by (cases a) (auto simp: FFMAX_def)

lemma dle_refl: "a \<noteq> NaN \<Longrightarrow> dle a a"
  by (cases a) auto

lemma ingest_sample_max_mono:
  assumes wf: "wf_state d" and c: "0 < dw_c d" and nn: "dw_max d \<noteq> NaN"
    and st: "ingest_sample s d = Inr d'"
  shows "dle (dw_max d) (dw_max d')"
proof -
  have x0: "0 \<le> dw_sum d + (sample_level (sint s))\<^sup>2" using wf by (simp add: wf_state_def)
  show ?thesis
    using st nn
    by (auto simp: ingest_sample_step [OF wf] rms_finite [OF c x0] dle_FFMAX dle_refl
             split: if_splits)
qed

text \<open>
  The window size has to be positive here. With \<open>c = 0\<close>, the default of the option,
  line 212 divides by zero: a first sample of 32767 commits an infinity, a second
  sample of 0 commits \<open>0 / 0\<close>, and \<open>FFMAX\<close> then replaces the infinite peak by NaN.
\<close>

lemma peak_with_zero_window:
  "map_sum id dw_max (ingest_samples (configured 2 240 0 heap hs) [32767]) = Inr PlusInf \<and>
   map_sum id dw_max (ingest_samples (configured 2 240 0 heap hs) [32767, 0]) = Inr NaN"
  by (simp add: eval_defs upt_rec)

text \<open>
  Claim C6. With a window size \<open>C > 0\<close>, in every state reached from the configured
  context by ingesting samples: one more ingest call never lowers \<open>max\<close>, and \<open>max\<close> is
  the largest of the committed values (and 0 while nothing is committed).
\<close>

theorem C6_peak:
  assumes W: "0 \<le> W" and C: "0 < C"
    and run: "ingest_samples (configured W H C heap hs) ss = Inr d"
  shows "(\<forall>s d'. ingest_sample s d = Inr d' \<longrightarrow> dle (dw_max d) (dw_max d')) \<and>
         (\<exists>rs. committed d = map Finite rs \<and> dw_max d = Finite (Max (insert 0 (set rs))) \<and>
               (rs \<noteq> [] \<longrightarrow> dw_max d = Finite (Max (set rs))))"
proof -
  have wf0: "wf_state (configured W H C heap hs)" using W C by (simp add: configured_wf)
  have inv: "wf_state d" "peak_inv d" "dw_c d = C"
    using ingest_samples_inv [OF wf0 _ configured_peak_inv run] C by auto
  obtain rs where rs: "committed d = map Finite rs" "\<forall>r \<in> set rs. 0 \<le> r"
      "dw_max d = Finite (Max (insert 0 (set rs)))"
    using inv(2) by (auto simp: peak_inv_def)
  have mono: "dle (dw_max d) (dw_max d')" if st: "ingest_sample s d = Inr d'" for s d'
    using ingest_sample_max_mono [OF inv(1) _ _ st] inv(3) C rs(3) by simp
  have "Max (insert 0 (set rs)) = Max (set rs)" if "rs \<noteq> []"
  proof -
    have "Max (insert 0 (set rs)) = max 0 (Max (set rs))" using that by simp
    moreover have "0 \<le> Max (set rs)"
    proof -
      have m: "hd rs \<in> set rs" using that by simp
      have "0 \<le> hd rs" using m rs(2) by blast
      also have "hd rs \<le> Max (set rs)" using m by (intro Max_ge) auto
      finally show ?thesis .
    qed
    ultimately show ?thesis by simp
  qed
  then show ?thesis using rs mono by auto
qed

theorem C6_peak_witness:
  "ingest_samples (configured 1 240 1 (\<lambda>_. NaN) []) [32767, 0] =
     Inr \<lparr>dw_w = 1, dw_h = 240, dw_c = 1, dw_col = 1, dw_str = [], dw_values = [Finite 1],
            dw_n = 0, dw_max = Finite 1, dw_sum = 0\<rparr> \<and>
   committed \<lparr>dw_w = 1, dw_h = 240, dw_c = 1, dw_col = 1, dw_str = [], dw_values = [Finite 1],
            dw_n = 0, dw_max = Finite 1, dw_sum = 0\<rparr> = [Finite 1] \<and>
   dw_max \<lparr>dw_w = 1, dw_h = 240, dw_c = 1, dw_col = 1, dw_str = [], dw_values = [Finite 1],
            dw_n = 0, dw_max = Finite 1, dw_sum = 0\<rparr> = Finite (Max (set [1])) \<and>
   ingest_sample 32767 \<lparr>dw_w = 1, dw_h = 240, dw_c = 1, dw_col = 1, dw_str = [], dw_values = [Finite 1],
            dw_n = 0, dw_max = Finite 1, dw_sum = 0\<rparr> =
     Inr \<lparr>dw_w = 1, dw_h = 240, dw_c = 1, dw_col = 1, dw_str = [], dw_values = [Finite 1],
            dw_n = 1, dw_max = Finite 1, dw_sum = 1\<rparr> \<and>
   dle (Finite 1) (Finite 1)"
  using C6_peak [OF _ _ example_run] example_run
  by (simp add: committed_def eval_defs)

subsection \<open>Rendering a column\<close>

lemma render_column_finite:
  assumes i: "i < length (dw_values d)" and v: "dw_values d ! i = Finite v"
    and p: "dw_max d = Finite p" "0 < p" and v0: "0 \<le> v" "v \<le> p"
    and h: "0 \<le> dw_h d" "dw_h d \<le> 2147483647"
  shows "render_column d i = Inr \<lfloor>real_of_int (dw_h d) * exp (v / p * exp 1 - exp 1)\<rfloor>"
    and "0 \<le> \<lfloor>real_of_int (dw_h d) * exp (v / p * exp 1 - exp 1)\<rfloor>"
    and "\<lfloor>real_of_int (dw_h d) * exp (v / p * exp 1 - exp 1)\<rfloor> \<le> dw_h d"
proof -
  let ?e = "exp (v / p * exp 1 - exp 1)"
  let ?x = "real_of_int (dw_h d) * ?e"
  have "v / p \<le> 1" using p v0 by simp
  then have "v / p * exp 1 \<le> 1 * exp 1" by (intro mult_right_mono) auto
  then have e1: "?e \<le> 1" by simp
  have e0: "0 < ?e" by simp
  have x0: "0 \<le> ?x" using h(1) e0 by simp
  have x1: "?x \<le> real_of_int (dw_h d)"
    using mult_left_mono [OF e1, of "real_of_int (dw_h d)"] h(1) by simp
  show f0: "0 \<le> \<lfloor>?x\<rfloor>" using x0 by simp
  show f1: "\<lfloor>?x\<rfloor> \<le> dw_h d" using x1 by (simp add: floor_le_iff)
  have t: "trunc0 ?x = \<lfloor>?x\<rfloor>" using x0 by (simp add: trunc0_def)
  have r: "dexp (dsub (dmul (ddiv (Finite v) (Finite p)) (Finite M_E)) (Finite M_E)) = Finite ?e"
    using p(2) by (simp add: M_E_def)
  have m: "dmul (double_of_int (dw_h d)) (Finite ?e) = Finite ?x"
    by (simp add: double_of_int_def)
  have c: "int_of_double (Finite ?x) = Inr \<lfloor>?x\<rfloor>"
  proof -
    have "- 2147483648 \<le> \<lfloor>?x\<rfloor>" "\<lfloor>?x\<rfloor> \<le> 2147483647"
      using f0 f1 h(2) by linarith+
    then show ?thesis unfolding int_of_double.simps t by (simp only: simp_thms if_True)
  qed
  show "render_column d i = Inr \<lfloor>?x\<rfloor>"
    unfolding render_column_def Let_def v p(1) r m c using i by simp
qed

lemma serialise_simps [simp]:
  "serialise [] = []" "serialise (r # rs) = sprintf_d_comma r @ serialise rs"
  by (simp_all add: serialise_def)

lemma sprintf_d_comma_nonempty: "sprintf_d_comma r \<noteq> []"
  by (simp add: sprintf_d_comma_def)

lemma render_loop_prefix:
  assumes cols: "\<forall>j < n. render_column d j = Inr (rs ! j)"
    and len: "length rs = n" and nw: "int n \<le> dw_w d"
  shows "i \<le> n \<Longrightarrow>
     render_loop (int i) d out =
       (if i = n \<or> int (length (out @ serialise (drop i rs))) + 1 \<le> dw_w d * 4
        then render_loop (int n) d (out @ serialise (drop i rs))
        else Inl UndefinedBehaviour)"
proof (induction "n - i" arbitrary: i out)
  case 0
  then have "i = n" by simp
  then show ?case using len by simp
next
  case (Suc k)
  then have lt: "i < n" and k: "k = n - Suc i" and le: "Suc i \<le> n" by auto
  let ?out' = "out @ sprintf_d_comma (rs ! i)"
  have dr: "drop i rs = rs ! i # drop (Suc i) rs"
    using lt len by (simp add: Cons_nth_drop_Suc)
  have col: "render_column d i = Inr (rs ! i)" using cols lt by simp
  have iw: "int i < dw_w d" using lt nw by simp
  have step: "render_loop (int i) d out =
      (if int (length ?out') + 1 \<le> dw_w d * 4 then render_loop (int (Suc i)) d ?out'
       else Inl UndefinedBehaviour)"
    using iw col by (subst render_loop.simps) (simp add: Let_def add.commute)
  note ih = Suc.hyps(1) [OF k le, of ?out']
  show ?case
  proof (cases "int (length ?out') + 1 \<le> dw_w d * 4")
    case False
    then have "\<not> int (length (out @ serialise (drop i rs))) + 1 \<le> dw_w d * 4"
      by (simp add: dr)
    then show ?thesis using step False lt by simp
  next
    case True
    show ?thesis
    proof (cases "Suc i = n")
      case last: True
      then have "drop (Suc i) rs = []" using len by simp
      then show ?thesis using step True ih last lt by (simp add: dr)
    next
      case False
      then show ?thesis using step True ih lt by (simp add: dr)
    qed
  qed
qed

text \<open>
  Claim C3. At end of stream, with window size \<open>C > 0\<close>, height \<open>0 \<le> H\<close> and a peak
  \<open>p > 0\<close>: every committed column holds a finite value \<open>v\<close> and is rendered by lines
  165-166 as \<open>floor(H * exp(v / p * e - e))\<close>, which lies between 0 and \<open>H\<close> and is \<open>H\<close>
  for a column holding the peak, and some column holds the peak. The loop of lines
  164-168 writes exactly these integers, in order, for the committed columns before it
  goes on to the others; when every column is committed, \<open>dumpwave_request_frame\<close>
  leaves them in \<open>str\<close>, separated by commas. Both hold as long as the text and its
  final NUL fit the \<open>4 * W\<close> bytes of \<open>str\<close>; otherwise \<open>sprintf\<close> writes past the block.
\<close>

theorem C3_render:
  assumes W: "0 \<le> W" and C: "0 < C" and H: "0 \<le> H" "H \<le> 2147483647"
    and run: "ingest_samples (configured W H C heap hs) ss = Inr d"
    and peak: "dw_max d = Finite p" "0 < p"
  shows "\<exists>vs. committed d = map Finite vs \<and> p \<in> set vs \<and>
           (\<forall>i < length vs.
              render_column d i = Inr (spec_height H p (vs ! i)) \<and>
              0 \<le> spec_height H p (vs ! i) \<and> spec_height H p (vs ! i) \<le> H \<and>
              (vs ! i = p \<longrightarrow> spec_height H p (vs ! i) = H)) \<and>
           render_loop 0 d [] =
             (if int (length (serialise (map (spec_height H p) vs))) + 1 \<le> W * 4
              then render_loop (dw_col d) d (serialise (map (spec_height H p) vs))
              else Inl UndefinedBehaviour) \<and>
           (dw_col d = W \<longrightarrow>
              dumpwave_request_frame d AVERROR_EOF =
                (if int (length (serialise (map (spec_height H p) vs))) + 1 \<le> W * 4
                 then Inr (AVERROR_EOF,
                           d\<lparr>dw_str := butlast (serialise (map (spec_height H p) vs))\<rparr>)
                 else Inl UndefinedBehaviour))"
proof -
  have wf0: "wf_state (configured W H C heap hs)" using W C by (simp add: configured_wf)
  have inv: "wf_state d" "peak_inv d" "dw_h d = H" "dw_w d = W"
    using ingest_samples_inv [OF wf0 _ configured_peak_inv run] C by auto
  obtain vs where vs: "committed d = map Finite vs" "\<forall>r \<in> set vs. 0 \<le> r"
      "dw_max d = Finite (Max (insert 0 (set vs)))"
    using inv(2) by (auto simp: peak_inv_def)
  let ?n = "nat (dw_col d)"
  let ?rs = "map (spec_height H p) vs"
  have col0: "0 \<le> dw_col d" and colw: "dw_col d \<le> dw_w d"
    and len: "?n \<le> length (dw_values d)"
    using inv(1) by (auto simp: wf_state_def)
  have lvs: "length vs = ?n"
    using arg_cong [OF vs(1), of length] len by (simp add: committed_def)
  have p: "p = Max (insert 0 (set vs))" using vs(3) peak(1) by simp
  have "p \<in> insert 0 (set vs)" unfolding p by (intro Max_in) auto
  then have pin: "p \<in> set vs" using peak(2) by auto
  have h: "0 \<le> dw_h d" "dw_h d \<le> 2147483647" using H inv(3) by auto
  have cols: "render_column d i = Inr (spec_height H p (vs ! i)) \<and>
              0 \<le> spec_height H p (vs ! i) \<and> spec_height H p (vs ! i) \<le> H \<and>
              (vs ! i = p \<longrightarrow> spec_height H p (vs ! i) = H)" if i: "i < length vs" for i
  proof -
    have il: "i < length (dw_values d)" using i lvs len by simp
    have "committed d ! i = dw_values d ! i" using i lvs by (simp add: committed_def)
    then have v: "dw_values d ! i = Finite (vs ! i)" using vs(1) i by simp
    have mem: "vs ! i \<in> set vs" using i by simp
    have v0: "0 \<le> vs ! i" using mem vs(2) by blast
    have vp: "vs ! i \<le> p" unfolding p using mem by (intro Max_ge) auto
    note r = render_column_finite [OF il v peak v0 vp h, unfolded inv(3)]
    have top: "spec_height H p (vs ! i) = H" if "vs ! i = p"
      using that peak(2) by (simp add: spec_height_def)
    show ?thesis using r top by (simp add: spec_height_def)
  qed
  have n0: "0 < ?n" using pin lvs by (cases vs) auto
  have pre: "\<forall>j < ?n. render_column d j = Inr (?rs ! j)" using cols lvs by simp
  have nw: "int ?n \<le> dw_w d" using col0 colw by simp
  have loop: "render_loop 0 d [] =
      (if int (length (serialise ?rs)) + 1 \<le> W * 4
       then render_loop (dw_col d) d (serialise ?rs) else Inl UndefinedBehaviour)"
    using render_loop_prefix [OF pre _ nw, of 0 "[]"] lvs n0 col0 inv(4) by simp
  have out: "serialise ?rs \<noteq> []"
    using n0 lvs by (cases vs) (auto simp: sprintf_d_comma_nonempty)
  have fin: "dumpwave_request_frame d AVERROR_EOF =
      (if int (length (serialise ?rs)) + 1 \<le> W * 4
       then Inr (AVERROR_EOF, d\<lparr>dw_str := butlast (serialise ?rs)\<rparr>)
       else Inl UndefinedBehaviour)" if full: "dw_col d = W"
  proof -
    have "render_loop (dw_col d) d (serialise ?rs) = Inr (serialise ?rs)"
      using full inv(4) by (subst render_loop.simps) simp
    then show ?thesis using loop out by (simp add: dumpwave_request_frame_def)
  qed
  show ?thesis using vs(1) pin cols loop fin by blast
qed

lemma dec_nat_examples: "dec_nat 10 = ''10''" "dec_nat 20 = ''20''"
  by (simp_all add: dec_nat.simps digit_char_def)

lemma full_run:
  "ingest_samples (configured 2 10 1 (\<lambda>_. NaN) []) [32767, 0, 32767, 0] =
     Inr \<lparr>dw_w = 2, dw_h = 10, dw_c = 1, dw_col = 2, dw_str = [],
          dw_values = [Finite 1, Finite 1], dw_n = 0, dw_max = Finite 1, dw_sum = 0\<rparr>"
  by (simp add: eval_defs upt_rec)

theorem C3_render_witness:
  "ingest_samples (configured 2 10 1 (\<lambda>_. NaN) []) [32767, 0, 32767, 0] =
     Inr \<lparr>dw_w = 2, dw_h = 10, dw_c = 1, dw_col = 2, dw_str = [],
          dw_values = [Finite 1, Finite 1], dw_n = 0, dw_max = Finite 1, dw_sum = 0\<rparr> \<and>
   dumpwave_request_frame
     \<lparr>dw_w = 2, dw_h = 10, dw_c = 1, dw_col = 2, dw_str = [],
        dw_values = [Finite 1, Finite 1], dw_n = 0, dw_max = Finite 1, dw_sum = 0\<rparr> AVERROR_EOF =
     Inr (AVERROR_EOF,
          \<lparr>dw_w = 2, dw_h = 10, dw_c = 1, dw_col = 2, dw_str = ''10,10'',
             dw_values = [Finite 1, Finite 1], dw_n = 0, dw_max = Finite 1, dw_sum = 0\<rparr>) \<and>
   run_stream 2 10 1 (\<lambda>_. NaN) [] [32767, 0, 32767, 0] = Inr ''10,10''"
proof -
  let ?d = "\<lparr>dw_w = 2, dw_h = 10, dw_c = 1, dw_col = 2, dw_str = [],
        dw_values = [Finite 1, Finite 1], dw_n = 0, dw_max = Finite 1, dw_sum = 0\<rparr>"
  from C3_render [OF _ _ _ _ full_run, of 1]
  obtain vs where vs: "committed ?d = map Finite vs"
    and fin: "dumpwave_request_frame ?d AVERROR_EOF =
                (if int (length (serialise (map (spec_height 10 1) vs))) + 1 \<le> 2 * 4
                 then Inr (AVERROR_EOF,
                           ?d\<lparr>dw_str := butlast (serialise (map (spec_height 10 1) vs))\<rparr>)
                 else Inl UndefinedBehaviour)"
    by auto
  have "map Finite vs = [Finite 1, Finite 1]" using vs by (simp add: committed_def)
  then have v: "vs = [1, 1]" by (auto simp: map_eq_Cons_conv)
  have s: "serialise (map (spec_height 10 1) vs) = ''10,10,''"
    by (simp add: v spec_height_def sprintf_d_comma_def dec_nat_examples)
  have f: "dumpwave_request_frame ?d AVERROR_EOF = Inr (AVERROR_EOF, ?d\<lparr>dw_str := ''10,10''\<rparr>)"
    using fin unfolding s by simp
  show ?thesis unfolding run_stream_def full_run using f by simp
qed

subsection \<open>Frames\<close>

text \<open>
  On a frame as the framework delivers it, the loop of \<open>dumpwave_filter_frame\<close> ingests
  the first \<open>rounds16\<close> samples of the first channel, and the call then appends the
  frame to the output link and returns 0.
\<close>

lemma sample_loop_eq:
  assumes "0 \<le> i" "1 \<le> ch" "nb * ch \<le> int (length p)"
  shows "sample_loop i nb ch p d = ingest_samples d (map (\<lambda>j. p ! (j * nat ch)) [nat i..<nat nb])"
  using assms
proof (induction i nb ch p d rule: sample_loop.induct)
  case (1 i nb ch p d)
  show ?case
  proof (cases "i < nb")
    case False
    then show ?thesis by (subst sample_loop.simps) simp
  next
    case True
    have lt: "i * ch < nb * ch" using True "1.prems"(2) by simp
    have inr0: "0 \<le> i * ch" using "1.prems"(1,2) by simp
    have inr1: "nat (i * ch) < length p" using "1.prems"(3) lt inr0 by linarith
    note inr = inr0 inr1
    have idx: "nat (i * ch) = nat i * nat ch"
      using "1.prems"(1,2) by (simp add: nat_mult_distrib)
    have upt: "[nat i..<nat nb] = nat i # [nat (i + 1)..<nat nb]"
      using True "1.prems"(1) by (simp add: upt_conv_Cons nat_add_distrib)
    show ?thesis
    proof (cases "ingest_sample (p ! nat (i * ch)) d")
      case (Inl e)
      then show ?thesis using True inr
        by (subst sample_loop.simps) (simp add: upt idx)
    next
      case (Inr d')
      have "sample_loop (i + 1) nb ch p d' =
            ingest_samples d' (map (\<lambda>j. p ! (j * nat ch)) [nat (i + 1)..<nat nb])"
        using "1.IH" [OF True _ Inr] inr "1.prems" by simp
      then show ?thesis using True inr Inr
        by (subst sample_loop.simps) (simp add: upt idx)
    qed
  qed
qed

lemma narrowed_le: "0 \<le> k \<Longrightarrow> sint (word_of_int k :: 16 word) \<le> k"
  by (simp add: signed_of_int signed_take_bit_int_less_eq_self_iff)

lemma narrowed_eq_iff: "0 \<le> k \<Longrightarrow> sint (word_of_int k :: 16 word) = k \<longleftrightarrow> k \<le> 32767"
  by (auto simp: signed_of_int signed_take_bit_int_eq_self_iff)

lemma filter_frame_eq:
  assumes wf: "wf_frame (channels ctx) f"
  shows "dumpwave_filter_frame ctx f status =
     (case ingest_samples (priv ctx) (first_channel (channels ctx) f (rounds16 f)) of
        Inl e \<Rightarrow> Inl e
      | Inr d \<Rightarrow> Inr (0, ctx\<lparr>priv := d, outputs0 := outputs0 ctx @ [f]\<rparr>))"
proof -
  let ?nb = "sint (word_of_int (nb_samples f) :: 16 word)"
  have ch: "1 \<le> channels ctx" and nb0: "0 \<le> nb_samples f"
    and len: "int (length (data0 f)) = nb_samples f * channels ctx"
    using wf by (auto simp: wf_frame_def)
  have "?nb * channels ctx \<le> nb_samples f * channels ctx"
    using narrowed_le [OF nb0] ch by (intro mult_right_mono) auto
  then have b: "?nb * channels ctx \<le> int (length (data0 f))" using len by simp
  have "sample_loop 0 ?nb (channels ctx) (data0 f) (priv ctx) =
        ingest_samples (priv ctx) (first_channel (channels ctx) f (rounds16 f))"
    using sample_loop_eq [OF _ ch b, of 0 "priv ctx"]
    by (simp add: first_channel_def rounds16_def)
  then show ?thesis
    by (simp add: dumpwave_filter_frame_def Let_def ff_filter_frame_def split: sum.splits)
qed

lemma ingest_samples_append:
  "ingest_samples d (xs @ ys) =
     (case ingest_samples d xs of Inl e \<Rightarrow> Inl e | Inr d' \<Rightarrow> ingest_samples d' ys)"
  by (induction xs arbitrary: d) (auto split: sum.splits)

lemmas frame_eval_defs = dumpwave_filter_frame_def sample_loop.simps ff_filter_frame_def

text \<open>
  Claim C9. The loop bound is the frame's sample count narrowed to \<open>int16_t\<close>
  (implementation-defined in C; modulo \<open>2^16\<close> on the usual compilers). For every
  well-formed frame the private context after the call is the one obtained by ingesting
  exactly the first \<open>rounds16\<close> first-channel samples; \<open>rounds16\<close> is the narrowed
  count, or 0 when that is negative or zero; and it equals the frame's sample count
  exactly when that count is at most 32767.
\<close>

theorem C9_narrowed_count:
  assumes "wf_frame (channels ctx) f"
  shows "map_sum id (priv \<circ> snd) (dumpwave_filter_frame ctx f status) =
           ingest_samples (priv ctx) (first_channel (channels ctx) f (rounds16 f)) \<and>
         length (first_channel (channels ctx) f (rounds16 f)) = rounds16 f \<and>
         int (rounds16 f) = max 0 (sint (word_of_int (nb_samples f) :: 16 word)) \<and>
         (int (rounds16 f) = nb_samples f \<longleftrightarrow> nb_samples f \<le> 32767)"
proof -
  have nb0: "0 \<le> nb_samples f" using assms by (simp add: wf_frame_def)
  have 1: "map_sum id (priv \<circ> snd) (dumpwave_filter_frame ctx f status) =
           ingest_samples (priv ctx) (first_channel (channels ctx) f (rounds16 f))"
    by (simp add: filter_frame_eq [OF assms] split: sum.splits)
  have 2: "length (first_channel (channels ctx) f (rounds16 f)) = rounds16 f"
    by (simp add: first_channel_def)
  have 3: "int (rounds16 f) = max 0 (sint (word_of_int (nb_samples f) :: 16 word))"
    by (simp add: rounds16_def max_def)
  have 4: "int (rounds16 f) = nb_samples f \<longleftrightarrow> nb_samples f \<le> 32767"
    using narrowed_eq_iff [OF nb0] nb0 unfolding 3 by (auto simp: max_def)
  show ?thesis using 1 2 3 4 by blast
qed

theorem C9_narrowed_count_witness:
  "wf_frame 1 \<lparr>nb_samples = 40000, data0 = replicate 40000 0\<rparr> \<and>
   rounds16 \<lparr>nb_samples = 40000, data0 = replicate 40000 0\<rparr> = 0 \<and>
   map_sum id (priv \<circ> snd)
     (dumpwave_filter_frame \<lparr>priv = configured 1 240 1 (\<lambda>_. NaN) [], channels = 1, outputs0 = []\<rparr>
        \<lparr>nb_samples = 40000, data0 = replicate 40000 0\<rparr> 0) =
     Inr (configured 1 240 1 (\<lambda>_. NaN) [])"
  using C9_narrowed_count [of "\<lparr>priv = configured 1 240 1 (\<lambda>_. NaN) [], channels = 1, outputs0 = []\<rparr>"
     "\<lparr>nb_samples = 40000, data0 = replicate 40000 0\<rparr>" 0]
  by (simp add: wf_frame_def rounds16_def first_channel_def)

lemma ingest_samples_stop:
  "ingest_samples d ss = Inl e \<Longrightarrow>
     \<exists>k < length ss. \<exists>d'. ingest_samples d (take k ss) = Inr d' \<and> ingest_sample (ss ! k) d' = Inl e"
proof (induction ss arbitrary: d)
  case Nil
  then show ?case by simp
next
  case (Cons s ss)
  show ?case
  proof (cases "ingest_sample s d")
    case (Inl e')
    then have "e' = e" using Cons.prems by simp
    then have "ingest_samples d (take 0 (s # ss)) = Inr d \<and> ingest_sample ((s # ss) ! 0) d = Inl e"
      using Inl by simp
    then show ?thesis by blast
  next
    case (Inr d1)
    then have "ingest_samples d1 ss = Inl e" using Cons.prems by simp
    from Cons.IH [OF this] obtain k d' where k: "k < length ss"
      "ingest_samples d1 (take k ss) = Inr d'" "ingest_sample (ss ! k) d' = Inl e"
      by blast
    have "ingest_samples d (take (Suc k) (s # ss)) = Inr d' \<and>
          ingest_sample ((s # ss) ! Suc k) d' = Inl e"
      using k Inr by simp
    moreover have "Suc k < length (s # ss)" using k(1) by simp
    ultimately show ?thesis by blast
  qed
qed

lemma assertion_failed_cursor:
  "window_commit d = Inl AssertFailed \<Longrightarrow> dw_w d \<le> dw_col d"
  by (auto simp: window_commit_def Let_def split: if_splits)

text \<open>
  Claim C10, amended. A call of \<open>dumpwave_filter_frame\<close> on a well-formed frame, in a
  state the filter can reach, has one of two outcomes. Either the loop ingests the
  frame's samples and passes every assertion: then the call returns 0 and leaves the
  same context whatever status the forwarding call produced. Or a window commit finds
  the cursor at \<open>w\<close> or beyond: then \<open>av_assert0\<close> fails, the process is aborted and the
  call does not return.
\<close>

theorem C10_returns_zero:
  assumes wf: "wf_frame (channels ctx) f" and st: "wf_state (priv ctx)"
  shows "(case ingest_samples (priv ctx) (first_channel (channels ctx) f (rounds16 f)) of
            Inr d \<Rightarrow>
              \<forall>status. dumpwave_filter_frame ctx f status =
                         Inr (0, ctx\<lparr>priv := d, outputs0 := outputs0 ctx @ [f]\<rparr>)
          | Inl e \<Rightarrow>
              e = AssertFailed \<and>
              (\<forall>status. dumpwave_filter_frame ctx f status = Inl AssertFailed) \<and>
              (\<exists>k < rounds16 f. \<exists>d.
                 ingest_samples (priv ctx) (first_channel (channels ctx) f k) = Inr d \<and>
                 window_commit (accumulate (data0 f ! (k * nat (channels ctx))) d) =
                   Inl AssertFailed \<and>
                 dw_w d \<le> dw_col d))"
proof (cases "ingest_samples (priv ctx) (first_channel (channels ctx) f (rounds16 f))")
  case (Inr d)
  then show ?thesis by (simp add: filter_frame_eq [OF wf])
next
  case (Inl e)
  let ?ss = "first_channel (channels ctx) f (rounds16 f)"
  have e: "e = AssertFailed"
    using ingest_samples_count [OF st, of ?ss] Inl by (auto split: if_splits)
  from ingest_samples_stop [OF Inl] obtain k d where k: "k < length ?ss"
      "ingest_samples (priv ctx) (take k ?ss) = Inr d" "ingest_sample (?ss ! k) d = Inl e"
    by blast
  have kr: "k < rounds16 f" using k(1) by (simp add: first_channel_def)
  have tk: "take k ?ss = first_channel (channels ctx) f k"
    using kr by (simp add: first_channel_def take_map)
  have nk: "?ss ! k = data0 f ! (k * nat (channels ctx))"
    using kr by (simp add: first_channel_def)
  have wc: "window_commit (accumulate (data0 f ! (k * nat (channels ctx))) d) = Inl AssertFailed"
    using k(3) e nk by (simp add: ingest_sample_def)
  have "dw_w d \<le> dw_col d" using assertion_failed_cursor [OF wc] by simp
  then show ?thesis using Inl e k(2) tk wc kr
    by (auto simp: filter_frame_eq [OF wf])
qed

theorem C10_returns_zero_witness:
  "wf_frame 1 \<lparr>nb_samples = 2, data0 = [32767, 0]\<rparr> \<and>
   wf_state (configured 1 240 1 (\<lambda>_. NaN) []) \<and>
   dumpwave_filter_frame \<lparr>priv = configured 1 240 1 (\<lambda>_. NaN) [], channels = 1, outputs0 = []\<rparr>
      \<lparr>nb_samples = 2, data0 = [32767, 0]\<rparr> (- 22) =
     Inr (0, \<lparr>priv = \<lparr>dw_w = 1, dw_h = 240, dw_c = 1, dw_col = 1, dw_str = [], dw_values = [Finite 1],
            dw_n = 0, dw_max = Finite 1, dw_sum = 0\<rparr>,
              channels = 1, outputs0 = [\<lparr>nb_samples = 2, data0 = [32767, 0]\<rparr>]\<rparr>)"
proof -
  let ?ctx = "\<lparr>priv = configured 1 240 1 (\<lambda>_. NaN) [], channels = 1, outputs0 = []\<rparr>"
  let ?f = "\<lparr>nb_samples = 2, data0 = [32767, 0]\<rparr>"
  have wf: "wf_frame (channels ?ctx) ?f" by (simp add: wf_frame_def)
  have st: "wf_state (priv ?ctx)" by (simp add: configured_wf)
  have ss: "first_channel (channels ?ctx) ?f (rounds16 ?f) = [32767, 0]"
    by (simp add: first_channel_def rounds16_def upt_rec)
  have run: "ingest_samples (priv ?ctx) (first_channel (channels ?ctx) ?f (rounds16 ?f)) =
      Inr \<lparr>dw_w = 1, dw_h = 240, dw_c = 1, dw_col = 1, dw_str = [], dw_values = [Finite 1],
            dw_n = 0, dw_max = Finite 1, dw_sum = 0\<rparr>"
    unfolding ss using example_run by simp
  have "\<forall>status. dumpwave_filter_frame ?ctx ?f status =
      Inr (0, ?ctx\<lparr>priv := \<lparr>dw_w = 1, dw_h = 240, dw_c = 1, dw_col = 1, dw_str = [],
            dw_values = [Finite 1], dw_n = 0, dw_max = Finite 1, dw_sum = 0\<rparr>,
            outputs0 := outputs0 ?ctx @ [?f]\<rparr>)"
    using C10_returns_zero [OF wf st] unfolding run by simp
  then show ?thesis using wf st by simp
qed

text \<open>
  Claim C10 as stated (0 is returned on every call) fails: with the default size
  600x240 and \<open>c = 1\<close>, a first frame of 1202 samples reaches a window commit when all
  600 columns are written, the assertion fails, and the call does not return.
\<close>

theorem C10_counterexample:
  "dumpwave_filter_frame
     \<lparr>priv = configured 600 240 1 (\<lambda>_. NaN) [], channels = 1, outputs0 = []\<rparr>
     \<lparr>nb_samples = 1202, data0 = replicate 1202 0\<rparr> 0 = Inl AssertFailed"
proof -
  let ?ctx = "\<lparr>priv = configured 600 240 1 (\<lambda>_. NaN) [], channels = 1, outputs0 = []\<rparr>"
  let ?f = "\<lparr>nb_samples = 1202, data0 = replicate 1202 0\<rparr>"
  have wf: "wf_frame (channels ?ctx) ?f" by (simp add: wf_frame_def)
  have st: "wf_state (priv ?ctx)" by (simp add: configured_wf)
  have r: "rounds16 ?f = 1202" by (simp add: rounds16_def)
  have "ingest_samples (priv ?ctx) (first_channel (channels ?ctx) ?f (rounds16 ?f)) = Inl AssertFailed"
    using ingest_samples_count [OF st, of "first_channel (channels ?ctx) ?f (rounds16 ?f)"]
    by (simp add: first_channel_def r)
  then show ?thesis by (simp add: filter_frame_eq [OF wf])
qed

text \<open>
  Claim C7, amended. For well-formed frames, filtering a sequence of frames either
  stops at an assertion failure, exactly when ingesting their samples does, or ends with
  the output link extended by exactly the input frames, each once, in input order and
  unchanged, whatever the downstream statuses were.
\<close>

theorem C7_forwarding:
  assumes "\<forall>f \<in> set fs. wf_frame (channels ctx) f"
  shows "filter_frames ctx fs statuses =
     (case ingest_samples (priv ctx)
             (concat (map (\<lambda>f. first_channel (channels ctx) f (rounds16 f)) fs)) of
        Inl e \<Rightarrow> Inl e
      | Inr d \<Rightarrow> Inr (ctx\<lparr>priv := d, outputs0 := outputs0 ctx @ fs\<rparr>))"
  using assms
proof (induction fs arbitrary: ctx statuses)
  case Nil
  then show ?case by simp
next
  case (Cons f fs)
  have wf: "wf_frame (channels ctx) f" using Cons.prems by simp
  let ?st = "case statuses of [] \<Rightarrow> 0 | s # _ \<Rightarrow> s"
  show ?case
  proof (cases "ingest_samples (priv ctx) (first_channel (channels ctx) f (rounds16 f))")
    case (Inl e)
    then show ?thesis
      by (simp add: filter_frame_eq [OF wf] ingest_samples_append)
  next
    case (Inr d)
    let ?ctx' = "ctx\<lparr>priv := d, outputs0 := outputs0 ctx @ [f]\<rparr>"
    have call: "dumpwave_filter_frame ctx f ?st = Inr (0, ?ctx')"
      using Inr by (simp add: filter_frame_eq [OF wf])
    have "\<forall>g \<in> set fs. wf_frame (channels ?ctx') g" using Cons.prems by simp
    from Cons.IH [OF this, of "tl statuses"] show ?thesis
      using call Inr by (simp add: ingest_samples_append split: sum.splits)
  qed
qed

theorem C7_forwarding_witness:
  "wf_frame 2 \<lparr>nb_samples = 2, data0 = [32767, 5, 0, 7]\<rparr> \<and>
   wf_frame 2 \<lparr>nb_samples = 2, data0 = [0, 9, 0, 11]\<rparr> \<and>
   map_sum id outputs0
     (filter_frames \<lparr>priv = configured 2 240 1 (\<lambda>_. NaN) [], channels = 2, outputs0 = []\<rparr>
        [\<lparr>nb_samples = 2, data0 = [32767, 5, 0, 7]\<rparr>, \<lparr>nb_samples = 2, data0 = [0, 9, 0, 11]\<rparr>]
        [0, - 22]) =
     Inr [\<lparr>nb_samples = 2, data0 = [32767, 5, 0, 7]\<rparr>, \<lparr>nb_samples = 2, data0 = [0, 9, 0, 11]\<rparr>]"
proof -
  have wf: "\<forall>f \<in> set [\<lparr>nb_samples = 2, data0 = [32767, 5, 0, 7]\<rparr>,
                        \<lparr>nb_samples = 2, data0 = [0, 9, 0, 11]\<rparr>].
              wf_frame (channels \<lparr>priv = configured 2 240 1 (\<lambda>_. NaN) [], channels = 2,
                                   outputs0 = []\<rparr>) f"
    by (simp add: wf_frame_def)
  show ?thesis
    unfolding C7_forwarding [OF wf]
    by (simp add: wf_frame_def first_channel_def rounds16_def eval_defs upt_rec)
qed

text \<open>
  Claim C7 as stated (every frame is forwarded, whatever the state) fails: with width 1
  and \<open>c = 1\<close>, the first frame of two samples fills the only column, and on the second
  frame the assertion fails before the frame is passed on.
\<close>

theorem C7_counterexample:
  "filter_frames \<lparr>priv = configured 1 240 1 (\<lambda>_. NaN) [], channels = 1, outputs0 = []\<rparr>
     [\<lparr>nb_samples = 2, data0 = [32767, 0]\<rparr>, \<lparr>nb_samples = 2, data0 = [0, 0]\<rparr>] [0, 0]
   = Inl AssertFailed"
  by (simp add: frame_eval_defs eval_defs)

subsection \<open>The block of values after \<open>init\<close>\<close>

text \<open>
  Cells at or above the cursor still hold what the heap held at allocation
  (\<open>never_committed_cells\<close>).
\<close>

lemma ingest_sample_untouched:
  assumes wf: "wf_state d" and st: "ingest_sample s d = Inr d'"
  shows "dw_col d \<le> dw_col d' \<and> (\<forall>i. nat (dw_col d') \<le> i \<longrightarrow> dw_values d' ! i = dw_values d ! i)"
  using st wf
  by (auto simp: ingest_sample_step [OF wf] wf_state_def split: if_splits)

lemma ingest_samples_untouched:
  "wf_state d \<Longrightarrow> ingest_samples d ss = Inr d' \<Longrightarrow>
     dw_col d \<le> dw_col d' \<and> (\<forall>i. nat (dw_col d') \<le> i \<longrightarrow> dw_values d' ! i = dw_values d ! i)"
proof (induction ss arbitrary: d)
  case Nil
  then show ?case by simp
next
  case (Cons s ss)
  from Cons.prems(2) obtain d1 where d1: "ingest_sample s d = Inr d1" "ingest_samples d1 ss = Inr d'"
    by (auto split: sum.splits)
  have wf1: "wf_state d1" using ingest_sample_wf [OF Cons.prems(1) d1(1)] .
  note a = ingest_sample_untouched [OF Cons.prems(1) d1(1)]
  note b = Cons.IH [OF wf1 d1(2)]
  have c0: "0 \<le> dw_col d" using Cons.prems(1) by (simp add: wf_state_def)
  show ?case
  proof (intro conjI allI impI)
    show "dw_col d \<le> dw_col d'" using a b by linarith
    fix i assume i: "nat (dw_col d') \<le> i"
    then have "nat (dw_col d1) \<le> i" using b by linarith
    then show "dw_values d' ! i = dw_values d ! i" using a b i by simp
  qed
qed

lemma never_committed_cells:
  assumes "0 \<le> W" "0 \<le> C" "ingest_samples (configured W H C heap hs) ss = Inr d"
    and "nat (dw_col d) \<le> i" "i < nat W"
  shows "dw_values d ! i = heap i"
  using ingest_samples_untouched [OF configured_wf [OF assms(1,2)] assms(3)] assms(4,5)
  by simp

text \<open>
  Claim C8 says the array is zero-initialised, so that a column never committed reads
  as 0. \<open>init\<close> allocates with \<open>av_malloc\<close>, which does not clear: with width 2 and a
  heap whose cells hold 7, the array after \<open>init\<close> is \<open>[7, 7]\<close>, and after one committed
  window the second cell, never committed, still holds 7.
\<close>

theorem C8_at_failing_input:
  "dw_values (snd (init (priv_alloc 2 240 1) (\<lambda>_. Finite 7) [])) = [Finite 7, Finite 7] \<and>
   map_sum id dw_values (ingest_samples (configured 2 240 1 (\<lambda>_. Finite 7) []) [32767, 0]) =
     Inr [Finite 1, Finite 7]"
  by (simp add: eval_defs upt_rec)

subsection \<open>Silence\<close>

lemma zero_level: "sample_level 0 = 0"
  by (simp add: sample_level_def)

lemma silent_step:
  assumes wf: "wf_state d" and c: "0 < dw_c d"
    and z: "dw_sum d = 0" "dw_max d = Finite 0" "committed d = replicate (nat (dw_col d)) (Finite 0)"
    and st: "ingest_sample 0 d = Inr d'"
  shows "dw_sum d' = 0 \<and> dw_max d' = Finite 0 \<and>
         committed d' = replicate (nat (dw_col d')) (Finite 0)"
proof (cases "dw_n d = dw_c d")
  case False
  then have "d' = d\<lparr>dw_n := dw_n d + 1, dw_sum := dw_sum d + (sample_level (sint (0 :: 16 word)))\<^sup>2\<rparr>"
    using st by (simp add: ingest_sample_step [OF wf])
  then show ?thesis using z by (simp add: committed_def zero_level)
next
  case True
  have r: "dsqrt (ddiv (Finite (dw_sum d + (sample_level 0)\<^sup>2))
             (double_of_int (dw_c d))) = Finite 0"
    using c z(1) by (simp add: zero_level double_of_int_def)
  have lt: "dw_col d < dw_w d" and
    d': "d' = d\<lparr>dw_n := 0, dw_col := dw_col d + 1, dw_sum := 0,
                  dw_values := (dw_values d)[nat (dw_col d) := Finite 0],
                  dw_max := FFMAX (dw_max d) (Finite 0)\<rparr>"
    using st True by (auto simp: ingest_sample_step [OF wf] r split: if_splits)
  have len: "nat (dw_col d) < length (dw_values d)" and col0: "0 \<le> dw_col d"
    using wf lt by (auto simp: wf_state_def)
  have nat1: "nat (dw_col d + 1) = Suc (nat (dw_col d))" using col0 by simp
  have "committed d' = committed d @ [Finite 0]"
    unfolding committed_def d' using len
    by (simp add: nat1 take_Suc_conv_app_nth)
  then have "committed d' = replicate (nat (dw_col d')) (Finite 0)"
    using z(3) by (simp add: d' nat1 replicate_append_same)
  then show ?thesis using z(2) by (simp add: d' FFMAX_Finite)
qed

lemma silent_stream:
  "wf_state d \<Longrightarrow> 0 < dw_c d \<Longrightarrow> dw_sum d = 0 \<Longrightarrow> dw_max d = Finite 0 \<Longrightarrow>
   committed d = replicate (nat (dw_col d)) (Finite 0) \<Longrightarrow>
   ingest_samples d (replicate k 0) = Inr d' \<Longrightarrow>
     dw_sum d' = 0 \<and> dw_max d' = Finite 0 \<and>
     committed d' = replicate (nat (dw_col d')) (Finite 0)"
proof (induction k arbitrary: d)
  case 0
  then show ?case by simp
next
  case (Suc k)
  from Suc.prems(6) obtain d1 where d1: "ingest_sample 0 d = Inr d1"
      "ingest_samples d1 (replicate k 0) = Inr d'"
    by (auto split: sum.splits)
  have wf1: "wf_state d1" using ingest_sample_wf [OF Suc.prems(1) d1(1)] .
  have c1: "0 < dw_c d1" using ingest_sample_config [OF d1(1)] Suc.prems(2) by simp
  note s1 = silent_step [OF Suc.prems(1,2,3,4,5) d1(1)]
  show ?case using Suc.IH [OF wf1 c1 _ _ _ d1(2)] s1 by blast
qed

lemma render_zero_peak_undefined:
  assumes "0 < dw_w d" "0 < length (dw_values d)" "dw_values d ! 0 = Finite 0" "dw_max d = Finite 0"
  shows "dumpwave_request_frame d AVERROR_EOF = Inl UndefinedBehaviour"
proof -
  have "render_column d 0 = Inl UndefinedBehaviour"
    using assms by (simp add: render_column_def double_of_int_def)
  then have "render_loop 0 d [] = Inl UndefinedBehaviour"
    using assms(1) by (subst render_loop.simps) simp
  then show ?thesis by (simp add: dumpwave_request_frame_def)
qed

lemma silent_stream_undefined:
  assumes W: "2 \<le> W" and C: "1 \<le> C"
  shows "run_stream W H C heap hs (replicate (nat (W * C)) 0) = Inl UndefinedBehaviour"
proof -
  let ?d0 = "configured W H C heap hs"
  let ?ss = "replicate (nat (W * C)) (0 :: 16 word)"
  have wf0: "wf_state ?d0" using W C by (simp add: configured_wf)
  have WC: "0 \<le> W * C" using W C by simp
  have le: "W * C \<le> W * (C + 1)" using W by (simp add: distrib_left)
  have "W * C div (C + 1) \<le> W * (C + 1) div (C + 1)" using le by (rule zdiv_mono1) (use C in simp)
  then have up: "W * C div (C + 1) \<le> W" using C by simp
  have "1 * (C + 1) \<le> W * C"
  proof -
    have "C + 1 \<le> 2 * C" using C by simp
    also have "\<dots> \<le> W * C" using W C by (intro mult_right_mono) auto
    finally show ?thesis by simp
  qed
  then have "1 * (C + 1) div (C + 1) \<le> W * C div (C + 1)" by (rule zdiv_mono1) (use C in simp)
  then have lo: "1 \<le> W * C div (C + 1)" using C by simp
  obtain d where d: "ingest_samples ?d0 ?ss = Inr d" "wf_state d"
      "dw_col d = W * C div (C + 1)" "dw_w d = W"
    using ingest_samples_count [OF wf0, of ?ss] up WC by auto
  have s: "dw_max d = Finite 0" "committed d = replicate (nat (dw_col d)) (Finite 0)"
    using silent_stream [OF wf0 _ _ _ _ d(1)] C by (simp_all add: committed_def)
  have len: "length (dw_values d) = nat W" using d(2,4) by (simp add: wf_state_def)
  have "committed d ! 0 = Finite 0" using s(2) d(3) lo by simp
  then have v0: "dw_values d ! 0 = Finite 0" using d(3) lo by (simp add: committed_def)
  have "dumpwave_request_frame d AVERROR_EOF = Inl UndefinedBehaviour"
    using render_zero_peak_undefined [OF _ _ v0 s(1)] d(4) len W by simp
  then show ?thesis by (simp add: run_stream_def d(1))
qed

text \<open>
  Claim C4 says that an all-zero stream of length \<open>W * C\<close> commits only zeros and is
  rendered as zeros. The first half holds (\<open>silent_stream\<close>). The finaliser has no case
  for a peak of 0: it divides 0 by 0 and converts the NaN to \<open>int\<close>, which is undefined
  (\<open>silent_stream_undefined\<close>). Here for \<open>W = 2\<close>, \<open>H = 240\<close>, \<open>C = 1\<close> and the stream
  \<open>0, 0\<close>.
\<close>

theorem C4_at_failing_input:
  "map_sum id (\<lambda>d. (committed d, dw_max d))
     (ingest_samples (configured 2 240 1 heap hs) [0, 0]) = Inr ([Finite 0], Finite 0) \<and>
   run_stream 2 240 1 heap hs [0, 0] = Inl UndefinedBehaviour"
  by (simp add: run_stream_def committed_def dumpwave_request_frame_def render_loop.simps
        render_column_def eval_defs upt_rec)

subsection \<open>The serialised string\<close>

lemma stale_cell_exponent: "(1 + ln 2 / exp 1) * exp 1 - exp 1 = (ln 2 :: real)"
  by (simp add: field_simps)

lemma short_stream_column0: "render_column \<lparr>dw_w = 2, dw_h = 10, dw_c = 1, dw_col = 1, dw_str = [],
      dw_values = [Finite 1, Finite (1 + ln 2 / exp 1)], dw_n = 0, dw_max = Finite 1, dw_sum = 0\<rparr> 0 = Inr 10"
  by (simp add: render_column_def M_E_def double_of_int_def trunc0_def)

lemma short_stream_column1: "render_column \<lparr>dw_w = 2, dw_h = 10, dw_c = 1, dw_col = 1, dw_str = [],
      dw_values = [Finite 1, Finite (1 + ln 2 / exp 1)], dw_n = 0, dw_max = Finite 1, dw_sum = 0\<rparr> (Suc 0) = Inr 20"
  by (simp add: render_column_def M_E_def double_of_int_def trunc0_def stale_cell_exponent)

lemma short_stream_run: "ingest_samples (configured 2 10 1 (\<lambda>_. Finite (1 + ln 2 / exp 1)) []) [32767, 0] =
   Inr \<lparr>dw_w = 2, dw_h = 10, dw_c = 1, dw_col = 1, dw_str = [],
      dw_values = [Finite 1, Finite (1 + ln 2 / exp 1)], dw_n = 0, dw_max = Finite 1, dw_sum = 0\<rparr>"
  by (simp add: eval_defs upt_rec)

text \<open>
  Claim C5 says that for a stream of any length the string holds \<open>W\<close> integers between
  0 and \<open>H\<close>. With \<open>W = 2\<close>, \<open>H = 10\<close>, \<open>C = 1\<close> and the stream \<open>32767, 0\<close>, one window
  is committed and the second column is rendered from the cell \<open>av_malloc\<close> left
  uninitialised; when that cell holds \<open>1 + ln 2 / e\<close> the string is \<open>10,20\<close>, and 20
  exceeds \<open>H\<close>.
\<close>

theorem C5_at_failing_input:
  "run_stream 2 10 1 (\<lambda>_. Finite (1 + ln 2 / exp 1)) [] [32767, 0] = Inr ''10,20''"
  unfolding run_stream_def short_stream_run
  by (simp add: dumpwave_request_frame_def render_loop.simps short_stream_column0 short_stream_column1 sprintf_d_comma_def dec_nat_examples)

end
